theory Spec2Isabelle
  imports Main "HOL-Library.Char_ord" "HOL-Library.List_Lexorder"
begin

section \<open>Python strings\<close>

text \<open>
  A Python \<open>str\<close> is modelled as a \<open>string\<close>, a list of characters; a character stands
  for the code point with the same number, so the model covers the texts whose code points
  are below 256. The character classes below are those of CPython on that range:
  \<open>str.isspace\<close> (also the class \<open>\s\<close> of \<open>re\<close> on \<open>str\<close> patterns), \<open>str.isalnum\<close> and
  \<open>str.lower\<close>.
\<close>

definition code :: "char \<Rightarrow> nat" where
  "code c = of_char c"

definition NL :: char where
  "NL = CHR 0x0A"

definition ESC :: char where
  "ESC = CHR 0x1B"

definition BEL :: char where
  "BEL = CHR 0x07"

definition isspace :: "char \<Rightarrow> bool" where
  "isspace c = (let n = code c in
     (9 \<le> n \<and> n \<le> 13) \<or> (28 \<le> n \<and> n \<le> 32) \<or> n = 133 \<or> n = 160)"

definition isalnum :: "char \<Rightarrow> bool" where
  "isalnum c = (let n = code c in
     (48 \<le> n \<and> n \<le> 57) \<or> (65 \<le> n \<and> n \<le> 90) \<or> (97 \<le> n \<and> n \<le> 122)
     \<or> n = 170 \<or> n = 178 \<or> n = 179 \<or> n = 181 \<or> n = 185 \<or> n = 186
     \<or> (188 \<le> n \<and> n \<le> 190) \<or> (192 \<le> n \<and> n \<le> 214)
     \<or> (216 \<le> n \<and> n \<le> 246) \<or> 248 \<le> n)"

definition lower_char :: "char \<Rightarrow> char" where
  "lower_char c = (let n = code c in
     if (65 \<le> n \<and> n \<le> 90) \<or> (192 \<le> n \<and> n \<le> 222 \<and> n \<noteq> 215)
     then char_of (n + 32) else c)"

definition lower :: "string \<Rightarrow> string" where
  "lower s = map lower_char s"

text \<open>\<open>s.strip()\<close>: leading and trailing whitespace removed.\<close>

definition strip :: "string \<Rightarrow> string" where
  "strip s = rev (dropWhile isspace (rev (dropWhile isspace s)))"

text \<open>\<open>s.startswith(p)\<close>.\<close>

definition startswith :: "string \<Rightarrow> string \<Rightarrow> bool" where
  "startswith s p = (take (length p) s = p)"

text \<open>\<open>sub in s\<close>: \<open>sub\<close> occurs at some position of \<open>s\<close>.\<close>

fun contains :: "string \<Rightarrow> string \<Rightarrow> bool" where
  "contains sub [] = (sub = [])"
| "contains sub (c # cs) = (startswith (c # cs) sub \<or> contains sub cs)"

text \<open>\<open>s.split('\n')\<close>: the lines of \<open>s\<close>; never the empty list.\<close>

fun split_nl :: "string \<Rightarrow> string list" where
  "split_nl [] = [[]]"
| "split_nl (c # cs) =
     (if c = NL then [] # split_nl cs
      else (let r = split_nl cs in (c # hd r) # tl r))"

text \<open>\<open>'\n'.join(ls)\<close>.\<close>

fun join_nl :: "string list \<Rightarrow> string" where
  "join_nl [] = []"
| "join_nl [l] = l"
| "join_nl (l # ls) = l @ NL # join_nl ls"

section \<open>Output normalizer: \<open>SRLinuxConnection._strip_ansi_codes\<close>\<close>

text \<open>
  \<open>re.sub(pattern, '', text)\<close> scans the text from the left; where the pattern matches at
  the current position the match is dropped and the scan goes on behind it, otherwise the
  character is kept. A matcher returns the text behind the match it finds at the start of
  its argument. Each pattern of the source has one way to match at a position (the greedy
  and lazy repetitions are followed by a class disjoint from what they repeat, or stop at
  the first terminator), so backtracking finds nothing else. An empty match replaces
  nothing and the scan moves on by one character.
\<close>

function re_sub :: "(string \<Rightarrow> string option) \<Rightarrow> string \<Rightarrow> string" where
  "re_sub m [] = []"
| "re_sub m (c # cs) =
     (case m (c # cs) of
        Some rest \<Rightarrow> if length rest \<le> length cs then re_sub m rest else c # re_sub m cs
      | None \<Rightarrow> c # re_sub m cs)"
  by pat_completeness auto
termination
  by (relation "measure (\<lambda>(m, s). length s)") auto

text \<open>The class \<open>[0-9;]\<close>.\<close>

definition is_param :: "char \<Rightarrow> bool" where
  "is_param c = (let n = code c in (48 \<le> n \<and> n \<le> 57) \<or> n = 59)"

text \<open>The class \<open>[a-zA-Z]\<close>.\<close>

definition is_letter :: "char \<Rightarrow> bool" where
  "is_letter c = (let n = code c in (65 \<le> n \<and> n \<le> 90) \<or> (97 \<le> n \<and> n \<le> 122))"

text \<open>\<open>[0-9;]*[a-zA-Z]\<close>, the tail of the CSI and of the character-set pattern.\<close>

definition params_letter :: "string \<Rightarrow> string option" where
  "params_letter cs =
     (case dropWhile is_param cs of
        [] \<Rightarrow> None
      | l # rest \<Rightarrow> if is_letter l then Some rest else None)"

text \<open>\<open>\x1b\[\??[0-9;]*[a-zA-Z]\<close>\<close>

fun match_csi :: "string \<Rightarrow> string option" where
  "match_csi (e # b # cs) =
     (if e = ESC \<and> b = CHR ''['' then
        (case cs of
           [] \<Rightarrow> None
         | q # r \<Rightarrow> if q = CHR ''?'' then params_letter r else params_letter cs)
      else None)"
| "match_csi _ = None"

text \<open>\<open>.*?\x07\<close>: up to the first BEL, over characters other than the newline.\<close>

fun until_bel :: "string \<Rightarrow> string option" where
  "until_bel [] = None"
| "until_bel (c # cs) =
     (if c = BEL then Some cs else if c = NL then None else until_bel cs)"

text \<open>\<open>\x1b\].*?\x07\<close>\<close>

fun match_osc :: "string \<Rightarrow> string option" where
  "match_osc (e # b # cs) = (if e = ESC \<and> b = CHR '']'' then until_bel cs else None)"
| "match_osc _ = None"

text \<open>\<open>\x1b[=>]\<close>\<close>

fun match_keypad :: "string \<Rightarrow> string option" where
  "match_keypad (e # b # cs) =
     (if e = ESC \<and> (b = CHR ''='' \<or> b = CHR ''>'') then Some cs else None)"
| "match_keypad _ = None"

text \<open>\<open>\x1b\([0-9;]*[a-zA-Z]\<close>\<close>

fun match_charset :: "string \<Rightarrow> string option" where
  "match_charset (e # b # cs) =
     (if e = ESC \<and> b = CHR ''('' then params_letter cs else None)"
| "match_charset _ = None"

text \<open>A pattern that is a fixed text after ESC: \<open>\x1b\[6n\<close>.\<close>

definition match_dsr :: "string \<Rightarrow> string option" where
  "match_dsr s = (if startswith s (ESC # ''[6n'') then Some (drop 4 s) else None)"

text \<open>\<open>\x1b\[\?2004[hl]\<close>\<close>

definition match_paste :: "string \<Rightarrow> string option" where
  "match_paste s =
     (if startswith s (ESC # ''[?2004'') then
        (case drop 7 s of
           [] \<Rightarrow> None
         | l # rest \<Rightarrow> if l = CHR ''h'' \<or> l = CHR ''l'' then Some rest else None)
      else None)"

text \<open>The class \<open>[\x00-\x08\x0b-\x0c\x0e-\x1f]\<close>.\<close>

definition is_ctrl :: "char \<Rightarrow> bool" where
  "is_ctrl c = (let n = code c in n \<le> 8 \<or> n = 11 \<or> n = 12 \<or> (14 \<le> n \<and> n \<le> 31))"

definition strip_ansi_codes :: "string \<Rightarrow> string" where
  "strip_ansi_codes text0 =
     (let text1 = re_sub match_csi text0;
          text2 = re_sub match_osc text1;
          text3 = re_sub match_keypad text2;
          text4 = re_sub match_charset text3;
          text5 = re_sub match_dsr text4;
          text6 = re_sub match_paste text5
      in filter (\<lambda>c. \<not> is_ctrl c) text6)"


text \<open>
  The inputs of the normalizer's removal property: a text made of printable ASCII
  characters, CSI sequences (ESC, \<open>[\<close>, an optional \<open>?\<close>, parameters from \<open>[0-9;]\<close>, a
  final letter) and OSC sequences (ESC, \<open>]\<close>, a printable body, BEL).
\<close>

definition printable :: "char \<Rightarrow> bool" where
  "printable c = (let n = code c in 32 \<le> n \<and> n \<le> 126)"

datatype token = Plain char | CSI bool string char | OSC string

fun render_token :: "token \<Rightarrow> string" where
  "render_token (Plain c) = [c]"
| "render_token (CSI q ps l) = ESC # CHR ''['' # (if q then ''?'' else []) @ ps @ [l]"
| "render_token (OSC body) = ESC # CHR '']'' # body @ [BEL]"

fun wf_token :: "token \<Rightarrow> bool" where
  "wf_token (Plain c) = printable c"
| "wf_token (CSI q ps l) = (list_all is_param ps \<and> is_letter l)"
| "wf_token (OSC body) = list_all printable body"

definition render :: "token list \<Rightarrow> string" where
  "render ts = concat (map render_token ts)"

fun plain_text :: "token list \<Rightarrow> string" where
  "plain_text [] = []"
| "plain_text (Plain c # ts) = c # plain_text ts"
| "plain_text (_ # ts) = plain_text ts"

fun is_CSI :: "token \<Rightarrow> bool" where
  "is_CSI (CSI q ps l) = True"
| "is_CSI _ = False"

text \<open>A matcher that can only match at an ESC.\<close>

definition esc_led :: "(string \<Rightarrow> string option) \<Rightarrow> bool" where
  "esc_led m = (\<forall>c cs. c \<noteq> ESC \<longrightarrow> m (c # cs) = None)"

section \<open>Prompt-synchronized read: \<open>SRLinuxConnection._send_command\<close>\<close>

datatype failure = FailJson string

text \<open>
  \<open>re.search(r'[#>]\s*$', clean_output)\<close>: at some position a \<open>#\<close> or \<open>>\<close> with only
  whitespace behind it (\<open>\s\<close> takes the newline too, so \<open>$\<close> is the end of the text).
\<close>

fun prompt_search :: "string \<Rightarrow> bool" where
  "prompt_search [] = False"
| "prompt_search (c # cs) =
     (((c = CHR ''#'' \<or> c = CHR ''>'') \<and> list_all isspace cs) \<or> prompt_search cs)"

text \<open>\<open>max_wait = 30\<close> seconds, in milliseconds.\<close>

definition max_wait :: nat where
  "max_wait = 30000"

text \<open>
  The polling loop. \<open>now i\<close> is \<open>time.time() - start_time\<close> in milliseconds at the \<open>i\<close>-th
  test of the loop condition; \<open>chan i\<close> is what the channel holds at the \<open>i\<close>-th poll:
  \<open>None\<close> when \<open>recv_ready()\<close> is false, \<open>Some chunk\<close> for the decoded result of \<open>recv\<close>.
  The loop may run for ever on a clock that stands still, so it returns an option.
\<close>

partial_function (option) recv_loop ::
  "(nat \<Rightarrow> nat) \<Rightarrow> (nat \<Rightarrow> string option) \<Rightarrow> nat \<Rightarrow> string \<Rightarrow> string option" where
  "recv_loop now chan i output =
     (if now i < max_wait then
        (case chan i of
           None \<Rightarrow> recv_loop now chan (Suc i) output
         | Some chunk \<Rightarrow>
             (let output' = output @ chunk in
              if prompt_search (strip_ansi_codes output') then Some output'
              else recv_loop now chan (Suc i) output'))
      else Some output)"

text \<open>
  \<open>_send_command\<close> on the channel: the check of the shell, then (the command is sent and
  half a second passes) the loop from an empty buffer when \<open>wait_for_prompt\<close> is set.
\<close>

definition send_command_read ::
  "bool \<Rightarrow> bool \<Rightarrow> (nat \<Rightarrow> nat) \<Rightarrow> (nat \<Rightarrow> string option) \<Rightarrow> (failure + string) option" where
  "send_command_read has_shell wait_for_prompt now chan =
     (if \<not> has_shell then Some (Inl (FailJson ''Not connected to device''))
      else if wait_for_prompt then map_option Inr (recv_loop now chan 0 [])
      else Some (Inr []))"

text \<open>The text received in the polls before the \<open>k\<close>-th.\<close>

definition received :: "(nat \<Rightarrow> string option) \<Rightarrow> nat \<Rightarrow> string" where
  "received chan k = concat (map (\<lambda>i. case chan i of None \<Rightarrow> [] | Some chunk \<Rightarrow> chunk) [0..<k])"

section \<open>Session: \<open>connect\<close>, \<open>execute_command\<close>\<close>

text \<open>
  The connection object: whether \<open>self.shell\<close> is set, the flag \<open>self.connected\<close>, and the
  record of the transport, the command lines sent over the shell in order.
\<close>

record session =
  shell :: bool
  connected :: bool
  sent :: "string list"

text \<open>
  The device: whether opening the transport raises (and with which text), and the output
  that \<open>_send_command\<close> returns for a command, given all the commands sent so far (the
  last one is the current command).
\<close>

record environment =
  host :: string
  connect_error :: "string option"
  reply :: "string list \<Rightarrow> string"

text \<open>
  \<open>module.fail_json\<close> ends the module; a failure is returned with the session as it was
  left.
\<close>

definition connect :: "environment \<Rightarrow> session \<Rightarrow> (failure + bool) \<times> session" where
  "connect env s =
     (if connected s then (Inr True, s)
      else case connect_error env of
             None \<Rightarrow> (Inr True, s\<lparr>shell := True, connected := True\<rparr>)
           | Some e \<Rightarrow> (Inl (FailJson (''Failed to connect to '' @ host env @ '': '' @ e)), s))"

text \<open>
  \<open>_send_command\<close> as the session and the transaction see it: the command is added to
  the record of the transport and the output is the reply of the device. How the output is
  read from the channel is \<open>send_command_read\<close>.
\<close>

definition send_command :: "environment \<Rightarrow> session \<Rightarrow> string \<Rightarrow> (failure + string) \<times> session" where
  "send_command env s command =
     (if \<not> shell s then (Inl (FailJson ''Not connected to device''), s)
      else (let h = sent s @ [command] in (Inr (reply env h), s\<lparr>sent := h\<rparr>)))"

text \<open>\<open>.*pat\<close> at the start of a text: \<open>pat\<close> at some position of its first line.\<close>

fun dotstar_then :: "string \<Rightarrow> string \<Rightarrow> bool" where
  "dotstar_then pat [] = (pat = [])"
| "dotstar_then pat (c # cs) = (startswith (c # cs) pat \<or> (c \<noteq> NL \<and> dotstar_then pat cs))"

text \<open>\<open>re.match(r'^--\{.*\}--', line)\<close>\<close>

definition prompt_banner :: "string \<Rightarrow> bool" where
  "prompt_banner line = (startswith line ''--{'' \<and> dotstar_then ''}--'' (drop 3 line))"

text \<open>\<open>re.match(r'^A:.*#', line)\<close>\<close>

definition a_prompt :: "string \<Rightarrow> bool" where
  "a_prompt line = (startswith line ''A:'' \<and> dotstar_then ''#'' (drop 2 line))"

text \<open>The lines \<open>194\<close> to \<open>202\<close> of \<open>execute_command\<close>: from the raw output to the body.\<close>

definition command_body :: "string \<Rightarrow> string" where
  "command_body output0 =
     (let output = strip_ansi_codes output0;
          lines = split_nl output;
          cleaned_lines = filter (\<lambda>line. \<not> prompt_banner line) (butlast (tl lines))
      in strip (join_nl cleaned_lines))"

definition execute_command :: "environment \<Rightarrow> session \<Rightarrow> string \<Rightarrow> (failure + string) \<times> session" where
  "execute_command env s command =
     (case connect env s of
        (Inl e, s1) \<Rightarrow> (Inl e, s1)
      | (Inr _, s1) \<Rightarrow>
          (case send_command env s1 command of
             (Inl e, s2) \<Rightarrow> (Inl e, s2)
           | (Inr output, s2) \<Rightarrow> (Inr (command_body output), s2)))"

text \<open>
  The body as the specification words it: the first line removed, a trailing line of the
  bracketed-status form removed, every other line kept.
\<close>

definition spec_body_lines :: "string list \<Rightarrow> string list" where
  "spec_body_lines lines =
     (let body = tl lines in
      if body \<noteq> [] \<and> prompt_banner (last body) then butlast body else body)"

definition spec_command_body :: "string \<Rightarrow> string" where
  "spec_command_body output0 = join_nl (spec_body_lines (split_nl (strip_ansi_codes output0)))"

section \<open>Transaction manager: \<open>send_config\<close>\<close>

definition enter_candidate_mode :: "environment \<Rightarrow> session \<Rightarrow> (failure + bool) \<times> session" where
  "enter_candidate_mode env s =
     (case connect env s of
        (Inl e, s1) \<Rightarrow> (Inl e, s1)
      | (Inr _, s1) \<Rightarrow>
          (case send_command env s1 ''enter candidate'' of
             (Inl e, s2) \<Rightarrow> (Inl e, s2)
           | (Inr output, s2) \<Rightarrow>
               if \<not> contains ''candidate'' (lower output)
               then (Inl (FailJson ''Failed to enter candidate mode''), s2)
               else (Inr True, s2)))"

definition exit_candidate_mode :: "environment \<Rightarrow> session \<Rightarrow> (failure + bool) \<times> session" where
  "exit_candidate_mode env s =
     (case send_command env s ''quit'' of
        (Inl e, s1) \<Rightarrow> (Inl e, s1)
      | (Inr output, s1) \<Rightarrow> (Inr True, s1))"

text \<open>The residue of the diff: the value of \<open>result\<close> at line \<open>370\<close>.\<close>

definition diff_residue :: "string \<Rightarrow> string" where
  "diff_residue diff_output0 =
     (let diff_output = strip_ansi_codes diff_output0;
          lines = split_nl diff_output;
          cleaned_lines =
            filter (\<lambda>line. \<not> prompt_banner line \<and> \<not> a_prompt line
                            \<and> strip line \<noteq> ''diff'' \<and> strip line \<noteq> []) lines
      in strip (join_nl cleaned_lines))"

definition clean_diff_output :: "string \<Rightarrow> string" where
  "clean_diff_output diff_output =
     (let result = diff_residue diff_output in
      if result = [] \<or> \<not> list_ex (\<lambda>c. isalnum c \<or> c \<in> set ''+-{}[]'') result then []
      else result)"

text \<open>The two tests of the loop at lines \<open>310\<close> to \<open>319\<close>.\<close>

definition marker_line :: "string \<Rightarrow> bool" where
  "marker_line line =
     ((startswith (strip line) ''+'' \<or> startswith (strip line) ''-'')
      \<and> \<not> (startswith (strip line) ''+++'' \<or> startswith (strip line) ''---''))"

definition keyword_line :: "string \<Rightarrow> bool" where
  "keyword_line line =
     list_ex (\<lambda>keyword. contains keyword line)
       [''interface'', ''network-instance'', ''protocols'', ''system'']"

definition has_changes :: "string \<Rightarrow> bool" where
  "has_changes d =
     (d \<noteq> [] \<and>
      list_ex (\<lambda>line. marker_line line
                 \<or> (keyword_line line \<and> (contains ''+'' d \<or> contains ''-'' d)))
        (split_nl d))"

record config_result =
  changed :: bool
  commands :: "string list"
  diff :: string

text \<open>The loop over the statements; \<open>cmds\<close> is \<open>result['commands']\<close> so far.\<close>

fun send_lines ::
  "environment \<Rightarrow> session \<Rightarrow> string list \<Rightarrow> string list \<Rightarrow> (failure + string list) \<times> session" where
  "send_lines env s cmds [] = (Inr cmds, s)"
| "send_lines env s cmds (line # rest) =
     (if strip line \<noteq> [] then
        (case send_command env s line of
           (Inl e, s1) \<Rightarrow> (Inl e, s1)
         | (Inr output, s1) \<Rightarrow>
             if contains ''error'' (lower output) \<or> contains ''invalid'' (lower output) then
               (case exit_candidate_mode env s1 of
                  (Inl e, s2) \<Rightarrow> (Inl e, s2)
                | (Inr _, s2) \<Rightarrow> (Inl (FailJson (''Configuration error: '' @ output)), s2))
             else send_lines env s1 (cmds @ [line]) rest)
      else send_lines env s cmds rest)"

text \<open>The last step of \<open>send_config\<close>: leave candidate mode and return the result.\<close>

definition exit_and_return ::
  "environment \<Rightarrow> session \<Rightarrow> config_result \<Rightarrow> (failure + config_result) \<times> session" where
  "exit_and_return env s result =
     (case exit_candidate_mode env s of
        (Inl e, s1) \<Rightarrow> (Inl e, s1)
      | (Inr _, s1) \<Rightarrow> (Inr result, s1))"

definition send_config ::
  "environment \<Rightarrow> session \<Rightarrow> string list \<Rightarrow> bool \<Rightarrow> (failure + config_result) \<times> session" where
  "send_config env s lines commit =
     (case connect env s of
        (Inl e, s0) \<Rightarrow> (Inl e, s0)
      | (Inr _, s0) \<Rightarrow>
     if lines = [] then (Inr \<lparr>changed = False, commands = [], diff = []\<rparr>, s0)
     else
     (case enter_candidate_mode env s0 of
        (Inl e, s1) \<Rightarrow> (Inl e, s1)
      | (Inr _, s1) \<Rightarrow>
     (case send_lines env s1 [] lines of
        (Inl e, s2) \<Rightarrow> (Inl e, s2)
      | (Inr cmds, s2) \<Rightarrow>
     (case send_command env s2 ''diff'' of
        (Inl e, s3) \<Rightarrow> (Inl e, s3)
      | (Inr diff_output, s3) \<Rightarrow>
     (let d = clean_diff_output diff_output in
      if has_changes d then
        (if commit then
           (case send_command env s3 ''commit now'' of
              (Inl e, s4) \<Rightarrow> (Inl e, s4)
            | (Inr commit_output, s4) \<Rightarrow>
                if contains ''error'' (lower commit_output)
                   \<or> contains ''failed'' (lower commit_output) then
                  (case exit_candidate_mode env s4 of
                     (Inl e, s5) \<Rightarrow> (Inl e, s5)
                   | (Inr _, s5) \<Rightarrow> (Inl (FailJson (''Commit failed: '' @ commit_output)), s5))
                else exit_and_return env s4 \<lparr>changed = True, commands = cmds, diff = d\<rparr>)
         else exit_and_return env s3 \<lparr>changed = True, commands = cmds, diff = d\<rparr>)
      else
        (case send_command env s3 ''discard now'' of
           (Inl e, s4) \<Rightarrow> (Inl e, s4)
         | (Inr _, s4) \<Rightarrow>
             exit_and_return env s4 \<lparr>changed = False, commands = cmds, diff = d\<rparr>))))))"

section \<open>Drift comparator: \<open>srlinux_compare.main\<close>\<close>

record drift_report =
  has_drift :: bool
  diff_text :: string
  missing :: "string list"
  extra :: "string list"

text \<open>
  The two loops at lines \<open>191\<close> to \<open>202\<close>: each line is stripped and added to the set when
  it is not empty and starts with \<open>set \<close>.
\<close>

definition statement_set :: "string list \<Rightarrow> string set" where
  "statement_set ls =
     set (filter (\<lambda>line. line \<noteq> [] \<and> startswith line ''set '') (map strip ls))"

text \<open>
  Lines \<open>191\<close> to \<open>218\<close>: the comparison of the intended statements with the text of the
  running configuration. \<open>sorted\<close> of a set of strings is the list of its elements in
  the order of the code points.
\<close>

definition compare :: "string list \<Rightarrow> string \<Rightarrow> drift_report" where
  "compare intended_config running_output =
     (let running_lines = statement_set (split_nl running_output);
          intended_lines = statement_set intended_config;
          missing_set = intended_lines - running_lines;
          extra_set = running_lines - intended_lines;
          diff_lines = map (\<lambda>line. ''+ '' @ line) (sorted_list_of_set missing_set)
                       @ map (\<lambda>line. ''- '' @ line) (sorted_list_of_set extra_set)
      in \<lparr>has_drift = (missing_set \<noteq> {} \<or> extra_set \<noteq> {}),
          diff_text = join_nl diff_lines,
          missing = sorted_list_of_set missing_set,
          extra = sorted_list_of_set extra_set\<rparr>)"

text \<open>
  The attributes of an \<open>SRLinuxConnection\<close> object: those set by \<open>__init__\<close> and the
  methods of the class. The attributes that every Python object has (\<open>__class__\<close>,
  \<open>__dict__\<close> and the like) are left out; none of them is named \<open>send_command\<close>.
\<close>

definition SRLinuxConnection_attributes :: "string list" where
  "SRLinuxConnection_attributes =
     [''module'', ''client'', ''shell'', ''connected'', ''host'', ''port'', ''username'',
      ''password'', ''timeout'',
      ''__init__'', ''connect'', ''disconnect'', ''_clear_buffer'', ''_strip_ansi_codes'',
      ''_send_command'', ''execute_command'', ''execute_commands'', ''enter_candidate_mode'',
      ''exit_candidate_mode'', ''get_config'', ''send_config'', ''_clean_diff_output'',
      ''check_config_diff'']"

definition quoted :: "string \<Rightarrow> string" where
  "quoted s = CHR 0x27 # s @ [CHR 0x27]"

text \<open>
  \<open>connection.name\<close>: the attribute, or the text of the \<open>AttributeError\<close> that Python
  raises.
\<close>

definition getattr_connection :: "string \<Rightarrow> string + string" where
  "getattr_connection name =
     (if name \<in> set SRLinuxConnection_attributes then Inr name
      else Inl (quoted ''SRLinuxConnection'' @ '' object has no attribute '' @ quoted name))"

record params =
  intended_config :: "string list"
  intended_file :: "string option"
  config_path :: string
  output_format :: string

record module_result =
  report :: drift_report
  path :: string
  running_config :: "string option"

text \<open>
  Lines \<open>163\<close> to \<open>173\<close>: the intended statements, from the parameter or from the file.
  \<open>files\<close> gives the lines of a file (as \<open>readlines\<close> does), \<open>None\<close> when the path does
  not exist.
\<close>

definition load_intended ::
  "(string \<Rightarrow> string list option) \<Rightarrow> params \<Rightarrow> failure + string list" where
  "load_intended files p =
     (case intended_file p of
        None \<Rightarrow> Inr (intended_config p)
      | Some f \<Rightarrow>
          if f = [] then Inr (intended_config p)
          else (case files f of
                  None \<Rightarrow> Inl (FailJson (''Intended config file not found: '' @ f))
                | Some ls \<Rightarrow>
                    Inr (map strip
                          (filter (\<lambda>line. strip line \<noteq> [] \<and> \<not> startswith line ''#'') ls))))"

text \<open>
  \<open>main\<close> after the arguments are parsed. \<open>has_paramiko\<close> is the module constant
  \<open>HAS_PARAMIKO\<close>; \<open>call name arg\<close> is what a method that the connection has returns. An
  exception raised inside the \<open>try\<close> block is caught and reported by \<open>fail_json\<close>.
\<close>

definition main ::
  "bool \<Rightarrow> (string \<Rightarrow> string list option) \<Rightarrow> (string \<Rightarrow> string \<Rightarrow> string) \<Rightarrow> params
   \<Rightarrow> failure + module_result" where
  "main has_paramiko files call p =
     (case load_intended files p of
        Inl e \<Rightarrow> Inl e
      | Inr intended \<Rightarrow>
          if \<not> has_paramiko then
            Inl (FailJson ''paramiko is required but not installed. Install it using: pip install paramiko'')
          else
            (case getattr_connection ''send_command'' of
               Inl e \<Rightarrow> Inl (FailJson (''Configuration comparison failed: '' @ e))
             | Inr method \<Rightarrow>
                 (let running_output = call method (''info flat '' @ config_path p) in
                  Inr \<lparr>report = compare intended running_output,
                       path = config_path p,
                       running_config =
                         (if output_format p \<in> set [''json'', ''yaml'']
                          then Some running_output else None)\<rparr>)))"

text \<open>
  The canonical statement set in the words of the specification: the trimmed lines that
  begin with \<open>set \<close>.
\<close>

definition canonical :: "string list \<Rightarrow> string set" where
  "canonical ls = strip ` {l \<in> set ls. startswith (strip l) ''set ''}"

section \<open>Sample devices and sessions\<close>

definition fresh :: session where
  "fresh = \<lparr>shell = False, connected = False, sent = []\<rparr>"

definition quiet_env :: environment where
  "quiet_env = \<lparr>host = ''srl1'', connect_error = None, reply = (\<lambda>h. [])\<rparr>"

definition sample_params :: params where
  "sample_params = \<lparr>intended_config = [''set / system name host-name leaf1''],
     intended_file = None, config_path = ''/'', output_format = ''diff''\<rparr>"

definition sample_tokens :: "token list" where
  "sample_tokens =
     [CSI True ''2004'' (CHR ''h''), OSC ''0;admin@srl'', CSI False ''1;32'' (CHR ''m''),
      Plain (CHR ''A''), Plain (CHR '':''), Plain (CHR ''s''), Plain (CHR ''r''),
      Plain (CHR ''l''), CSI False [] (CHR ''m''), Plain (CHR ''#''), Plain (CHR '' '')]"


text \<open>The test of line \<open>298\<close> on the output of a statement.\<close>

definition rejected :: "string \<Rightarrow> bool" where
  "rejected output = (contains ''error'' (lower output) \<or> contains ''invalid'' (lower output))"

text \<open>The statements that the loop sends: the lines that are not blank.\<close>

definition statements :: "string list \<Rightarrow> string list" where
  "statements lines = filter (\<lambda>line. strip line \<noteq> []) lines"

definition banner_text :: string where
  "banner_text = ''--{ candidate shared default }--[  ]--''"

text \<open>A device that rejects the statement with the unknown option.\<close>

definition rejecting_env :: environment where
  "rejecting_env = \<lparr>host = ''srl1'', connect_error = None,
     reply = (\<lambda>h. if last h = ''enter candidate'' then banner_text @ [NL] @ ''A:srl1# ''
                    else if last h = ''set / interface ethernet-1/1 bogus-opt enable''
                    then ''Error: invalid option'' else [])\<rparr>"

definition bogus_lines :: "string list" where
  "bogus_lines = [''set / interface ethernet-1/1 bogus-opt enable'',
                  ''set / interface ethernet-1/1 admin-state enable'']"

text \<open>A device whose diff is the echo of \<open>diff\<close> and a prompt line.\<close>

definition unchanged_env :: environment where
  "unchanged_env = \<lparr>host = ''srl1'', connect_error = None,
     reply = (\<lambda>h. if last h = ''enter candidate'' then banner_text @ [NL] @ ''A:srl1# ''
                    else if last h = ''diff'' then ''diff'' @ [NL] @ banner_text
                    else [])\<rparr>"

definition one_line :: "string list" where
  "one_line = [''set / interface ethernet-1/1 admin-state enable'']"

text \<open>A device whose output stops before a prompt, as after the deadline of a read.\<close>

definition partial_env :: environment where
  "partial_env = \<lparr>host = ''srl1'', connect_error = None,
     reply = (\<lambda>h. ''show version'' @ [NL] @ ''line1'' @ [NL] @ ''line2'')\<rparr>"

text \<open>A device that answers with the echo, one line, the banner and the prompt.\<close>

definition typical_env :: environment where
  "typical_env = \<lparr>host = ''srl1'', connect_error = None,
     reply = (\<lambda>h. ''show version'' @ [NL] @ ESC # ''[1mHostname : srl1'' @ [NL] @ banner_text
                    @ [NL] @ ''A:srl1# '')\<rparr>"

text \<open>
  A device whose complete output has an indented body line before the banner and the
  prompt.
\<close>

definition indented_env :: environment where
  "indented_env = \<lparr>host = ''srl1'', connect_error = None,
     reply = (\<lambda>h. ''show version'' @ [NL] @ ''  Hostname : srl1'' @ [NL]
                    @ ''--{ running }--[  ]--'' @ [NL] @ ''A:srl1# '')\<rparr>"

text \<open>A clock that advances ten seconds per poll, and a channel that goes silent.\<close>

definition slow_clock :: "nat \<Rightarrow> nat" where
  "slow_clock i = i * 10000"

definition stalled_chan :: "nat \<Rightarrow> string option" where
  "stalled_chan i = (if i = 0 then Some (''show version'' @ [NL] @ ''Hostname'') else None)"

section \<open>Properties of the output normalizer\<close>

text \<open>
  Every matcher consumes at least one character, so the scan of \<open>re_sub\<close> always goes
  on behind a match.
\<close>

lemma params_letter_shorter: "params_letter cs = Some rest \<Longrightarrow> length rest < length cs"
proof -
  assume a: "params_letter cs = Some rest"
  then obtain l where "dropWhile is_param cs = l # rest"
    by (auto simp: params_letter_def split: list.splits if_splits)
  then have "length (dropWhile is_param cs) = Suc (length rest)" by simp
  moreover have "length (dropWhile is_param cs) \<le> length cs" by (rule length_dropWhile_le)
  ultimately show ?thesis by simp
qed

lemma until_bel_shorter: "until_bel cs = Some rest \<Longrightarrow> length rest < length cs"
  by (induction cs) (auto split: if_splits)

lemma match_csi_shorter: "match_csi s = Some rest \<Longrightarrow> length rest < length s"
  by (cases s rule: match_csi.cases)
     (auto split: if_splits list.splits dest!: params_letter_shorter)

lemma match_osc_shorter: "match_osc s = Some rest \<Longrightarrow> length rest < length s"
  by (cases s rule: match_osc.cases) (auto split: if_splits dest!: until_bel_shorter)

lemma match_keypad_shorter: "match_keypad s = Some rest \<Longrightarrow> length rest < length s"
  by (cases s rule: match_keypad.cases) (auto split: if_splits)

lemma match_charset_shorter: "match_charset s = Some rest \<Longrightarrow> length rest < length s"
  by (cases s rule: match_charset.cases) (auto split: if_splits dest!: params_letter_shorter)

lemma startswith_length: "startswith s p \<Longrightarrow> length p \<le> length s"
proof -
  assume "startswith s p"
  then have "take (length p) s = p" by (simp add: startswith_def)
  then have "length (take (length p) s) = length p" by simp
  then have "min (length s) (length p) = length p" by (simp only: length_take)
  then show ?thesis by linarith
qed

lemma match_dsr_shorter: "match_dsr s = Some rest \<Longrightarrow> length rest < length s"
proof -
  assume "match_dsr s = Some rest"
  then have t: "startswith s (ESC # ''[6n'')" and r: "rest = drop 4 s"
    by (auto simp: match_dsr_def split: if_splits)
  from t have "length (ESC # ''[6n'') \<le> length s" by (rule startswith_length)
  with r show ?thesis by simp
qed

lemma match_paste_shorter: "match_paste s = Some rest \<Longrightarrow> length rest < length s"
proof -
  assume a: "match_paste s = Some rest"
  then obtain l where "drop 7 s = l # rest"
    by (auto simp: match_paste_def split: if_splits list.splits)
  then have "length (drop 7 s) = Suc (length rest)" by simp
  then show ?thesis by simp
qed

lemma re_sub_match:
  "m (c # cs) = Some rest \<Longrightarrow> length rest < length (c # cs) \<Longrightarrow> re_sub m (c # cs) = re_sub m rest"
  by simp

lemma esc_led_csi: "esc_led match_csi"
  unfolding esc_led_def
proof (intro allI impI)
  fix c cs assume "c \<noteq> ESC"
  then show "match_csi (c # cs) = None" by (cases cs) simp_all
qed

lemma esc_led_osc: "esc_led match_osc"
  unfolding esc_led_def
proof (intro allI impI)
  fix c cs assume "c \<noteq> ESC"
  then show "match_osc (c # cs) = None" by (cases cs) simp_all
qed

lemma esc_led_keypad: "esc_led match_keypad"
  unfolding esc_led_def
proof (intro allI impI)
  fix c cs assume "c \<noteq> ESC"
  then show "match_keypad (c # cs) = None" by (cases cs) simp_all
qed

lemma esc_led_charset: "esc_led match_charset"
  unfolding esc_led_def
proof (intro allI impI)
  fix c cs assume "c \<noteq> ESC"
  then show "match_charset (c # cs) = None" by (cases cs) simp_all
qed

lemma esc_led_dsr: "esc_led match_dsr"
  by (simp add: esc_led_def match_dsr_def startswith_def)

lemma esc_led_paste: "esc_led match_paste"
  by (simp add: esc_led_def match_paste_def startswith_def)

lemma re_sub_skip: "esc_led m \<Longrightarrow> ESC \<notin> set xs \<Longrightarrow> re_sub m (xs @ ys) = xs @ re_sub m ys"
  by (induction xs) (auto simp: esc_led_def)

lemma re_sub_id: "esc_led m \<Longrightarrow> ESC \<notin> set xs \<Longrightarrow> re_sub m xs = xs"
  using re_sub_skip [of m xs "[]"] by simp

lemma ctrl_ESC: "is_ctrl ESC"
  by (simp add: is_ctrl_def ESC_def code_def)

lemma strip_ansi_codes_no_ctrl: "c \<in> set (strip_ansi_codes x) \<Longrightarrow> \<not> is_ctrl c"
  by (simp add: strip_ansi_codes_def Let_def)

lemma strip_ansi_codes_fixed:
  assumes "\<forall>c \<in> set y. \<not> is_ctrl c"
  shows "strip_ansi_codes y = y"
proof -
  from assms have esc: "ESC \<notin> set y" using ctrl_ESC by blast
  have flt: "filter (\<lambda>c. \<not> is_ctrl c) y = y" using assms by (simp add: filter_id_conv)
  show ?thesis
    by (simp add: strip_ansi_codes_def Let_def re_sub_id esc flt
        esc_led_csi esc_led_osc esc_led_keypad esc_led_charset esc_led_dsr esc_led_paste)
qed

lemma printable_not_ESC: "printable c \<Longrightarrow> c \<noteq> ESC"
  by (auto simp: printable_def ESC_def code_def)

lemma printable_not_BEL: "printable c \<Longrightarrow> c \<noteq> BEL"
  by (auto simp: printable_def BEL_def code_def)

lemma printable_not_NL: "printable c \<Longrightarrow> c \<noteq> NL"
  by (auto simp: printable_def NL_def code_def)

lemma printable_not_ctrl: "printable c \<Longrightarrow> \<not> is_ctrl c"
  by (auto simp: printable_def is_ctrl_def Let_def)

lemma letter_not_param: "is_letter l \<Longrightarrow> \<not> is_param l"
  by (auto simp: is_letter_def is_param_def Let_def)

lemma param_not_q: "is_param c \<Longrightarrow> c \<noteq> CHR ''?''"
  by (auto simp: is_param_def code_def)

lemma letter_not_q: "is_letter c \<Longrightarrow> c \<noteq> CHR ''?''"
  by (auto simp: is_letter_def code_def)

lemma params_letter_ok:
  "list_all is_param ps \<Longrightarrow> is_letter l \<Longrightarrow> params_letter (ps @ l # rest) = Some rest"
  by (induction ps) (simp_all add: params_letter_def letter_not_param)

lemma match_csi_ok:
  assumes "list_all is_param ps" "is_letter l"
  shows "match_csi (render_token (CSI q ps l) @ rest) = Some rest"
proof (cases q)
  case True
  then show ?thesis using assms by (simp add: params_letter_ok)
next
  case False
  then show ?thesis using assms
    by (cases ps) (simp_all add: params_letter_ok letter_not_q param_not_q
        params_letter_ok [of "[]", simplified] params_letter_ok [of "_ # _", simplified])
qed

lemma until_bel_ok:
  "list_all printable body \<Longrightarrow> until_bel (body @ BEL # rest) = Some rest"
  by (induction body) (simp_all add: printable_not_BEL printable_not_NL)


lemma render_Cons: "render (t # ts) = render_token t @ render ts"
  by (simp add: render_def)

lemma stage_csi:
  "list_all wf_token ts \<Longrightarrow>
   re_sub match_csi (render ts) = render (filter (\<lambda>t. \<not> is_CSI t) ts)"
proof (induction ts)
  case Nil
  then show ?case by (simp add: render_def)
next
  case (Cons t ts)
  then have IH: "re_sub match_csi (render ts) = render (filter (\<lambda>t. \<not> is_CSI t) ts)"
    by simp
  show ?case
  proof (cases t)
    case (Plain c)
    with Cons.prems have "c \<noteq> ESC" by (simp add: printable_not_ESC)
    then have "re_sub match_csi (c # render ts) = c # re_sub match_csi (render ts)"
      using re_sub_skip [OF esc_led_csi, of "[c]" "render ts"] by simp
    with Plain IH show ?thesis by (simp add: render_Cons)
  next
    case (CSI q ps l)
    with Cons.prems have "list_all is_param ps" "is_letter l" by simp_all
    then have m: "match_csi (render_token (CSI q ps l) @ render ts) = Some (render ts)"
      by (rule match_csi_ok)
    have "re_sub match_csi (render_token (CSI q ps l) @ render ts) = re_sub match_csi (render ts)"
      using m by (simp del: match_csi.simps)
    with CSI IH show ?thesis by (simp add: render_Cons del: render_token.simps)
  next
    case (OSC body)
    with Cons.prems have "list_all printable body" by simp
    then have "ESC \<notin> set body" using printable_not_ESC by (auto simp: list_all_iff)
    then have "ESC \<notin> set (CHR '']'' # body @ [BEL])"
      by (simp add: ESC_def BEL_def)
    then have "re_sub match_csi ((CHR '']'' # body @ [BEL]) @ render ts)
               = (CHR '']'' # body @ [BEL]) @ re_sub match_csi (render ts)"
      by (rule re_sub_skip [OF esc_led_csi])
    then have "re_sub match_csi (render_token (OSC body) @ render ts)
               = render_token (OSC body) @ re_sub match_csi (render ts)"
      by simp
    with OSC IH show ?thesis by (simp add: render_Cons del: render_token.simps)
  qed
qed

lemma stage_osc:
  "list_all wf_token ts \<Longrightarrow> \<not> list_ex is_CSI ts \<Longrightarrow>
   re_sub match_osc (render ts) = plain_text ts"
proof (induction ts)
  case Nil
  then show ?case by (simp add: render_def)
next
  case (Cons t ts)
  then have IH: "re_sub match_osc (render ts) = plain_text ts"
    by simp
  show ?case
  proof (cases t)
    case (Plain c)
    with Cons.prems have "c \<noteq> ESC" by (simp add: printable_not_ESC)
    then have "re_sub match_osc (c # render ts) = c # re_sub match_osc (render ts)"
      using re_sub_skip [OF esc_led_osc, of "[c]" "render ts"] by simp
    with Plain IH show ?thesis by (simp add: render_Cons)
  next
    case (CSI q ps l)
    with Cons.prems show ?thesis by simp
  next
    case (OSC body)
    with Cons.prems have "until_bel (body @ BEL # render ts) = Some (render ts)"
      by (simp add: until_bel_ok)
    then have "re_sub match_osc (render_token (OSC body) @ render ts) = re_sub match_osc (render ts)"
      by simp
    with OSC IH show ?thesis by (simp add: render_Cons del: render_token.simps)
  qed
qed

lemma plain_text_printable: "list_all wf_token ts \<Longrightarrow> list_all printable (plain_text ts)"
  by (induction ts rule: plain_text.induct) simp_all

lemma filter_CSI_wf: "list_all wf_token ts \<Longrightarrow> list_all wf_token (filter (\<lambda>t. \<not> is_CSI t) ts)"
  by (induction ts) simp_all

lemma filter_CSI_none: "\<not> list_ex is_CSI (filter (\<lambda>t. \<not> is_CSI t) ts)"
  by (induction ts) simp_all

lemma plain_text_filter_CSI: "plain_text (filter (\<lambda>t. \<not> is_CSI t) ts) = plain_text ts"
  by (induction ts rule: plain_text.induct) simp_all

lemma strip_ansi_codes_render_plain:
  assumes "list_all wf_token ts"
  shows "strip_ansi_codes (render ts) = plain_text ts"
proof -
  have p: "list_all printable (plain_text ts)" using assms by (rule plain_text_printable)
  then have esc: "ESC \<notin> set (plain_text ts)"
    using printable_not_ESC by (auto simp: list_all_iff)
  have s1: "re_sub match_csi (render ts) = render (filter (\<lambda>t. \<not> is_CSI t) ts)"
    using assms by (rule stage_csi)
  have s2: "re_sub match_osc (render (filter (\<lambda>t. \<not> is_CSI t) ts)) = plain_text ts"
    using stage_osc [OF filter_CSI_wf [OF assms] filter_CSI_none] 
    by (simp add: plain_text_filter_CSI)
  have flt: "filter (\<lambda>c. \<not> is_ctrl c) (plain_text ts) = plain_text ts"
    using p by (simp add: filter_id_conv list_all_iff printable_not_ctrl)
  show ?thesis
    by (simp add: strip_ansi_codes_def Let_def s1 s2 re_sub_id esc flt
        esc_led_keypad esc_led_charset esc_led_dsr esc_led_paste)
qed

text \<open>
  Claim C3. The normalizer is a total function (its recursive scans terminate and no step
  of it can fail on a string), and it is idempotent: normalizing a normalized text changes
  nothing. The result never holds an ESC or another removed control character. For a text
  made only of printable ASCII characters and well-formed CSI and OSC sequences, the
  result is the text without these sequences.
\<close>

theorem strip_ansi_codes_idempotent:
  "strip_ansi_codes (strip_ansi_codes x) = strip_ansi_codes x
   \<and> ESC \<notin> set (strip_ansi_codes x)
   \<and> (list_all wf_token ts \<longrightarrow> strip_ansi_codes (render ts) = plain_text ts)"
proof (intro conjI impI)
  show "strip_ansi_codes (strip_ansi_codes x) = strip_ansi_codes x"
    by (rule strip_ansi_codes_fixed) (simp add: strip_ansi_codes_no_ctrl)
  show "ESC \<notin> set (strip_ansi_codes x)"
    using strip_ansi_codes_no_ctrl ctrl_ESC by blast
  show "strip_ansi_codes (render ts) = plain_text ts" if "list_all wf_token ts"
    using that by (rule strip_ansi_codes_render_plain)
qed

theorem strip_ansi_codes_idempotent_witness:
  "list_all wf_token sample_tokens
   \<and> strip_ansi_codes (render sample_tokens) = ''A:srl# ''
   \<and> strip_ansi_codes (strip_ansi_codes (ESC # ESC # ''[0m[0m''))
       = strip_ansi_codes (ESC # ESC # ''[0m[0m'')"
proof -
  have wf: "list_all wf_token sample_tokens"
    by (simp add: sample_tokens_def printable_def is_param_def is_letter_def code_def)
  have pt: "plain_text sample_tokens = ''A:srl# ''"
    by (simp add: sample_tokens_def)
  note t = strip_ansi_codes_idempotent [of "ESC # ESC # ''[0m[0m''" sample_tokens]
  from t [THEN conjunct2, THEN conjunct2, THEN mp, OF wf]
  have "strip_ansi_codes (render sample_tokens) = ''A:srl# ''"
    by (simp only: pt)
  with wf t [THEN conjunct1] show ?thesis by (intro conjI)
qed

section \<open>Properties of the prompt-synchronized read\<close>

lemma received_Suc:
  "received chan (Suc k) = received chan k @ (case chan k of None \<Rightarrow> [] | Some chunk \<Rightarrow> chunk)"
  by (simp add: received_def)

lemma clock_grows: "\<forall>i. now i < now (Suc i) \<Longrightarrow> k \<le> now (k::nat)"
proof (induction k)
  case 0
  then show ?case by simp
next
  case (Suc k)
  then have "k \<le> now k" "now k < now (Suc k)" by simp_all
  then show ?case by simp
qed

lemma recv_loop_run:
  assumes quiet: "\<forall>k. \<not> prompt_search (strip_ansi_codes (received chan k))"
    and before: "\<forall>j < k. now j < max_wait"
    and at: "max_wait \<le> now k"
  shows "i \<le> k \<Longrightarrow> recv_loop now chan i (received chan i) = Some (received chan k)"
proof (induction "k - i" arbitrary: i)
  case 0
  then have "i = k" by simp
  with at show ?case by (subst recv_loop.simps) simp
next
  case (Suc d)
  then have lt: "i < k" and d: "d = k - Suc i" and le: "Suc i \<le> k" by simp_all
  from before lt have run: "now i < max_wait" by simp
  have IH: "recv_loop now chan (Suc i) (received chan (Suc i)) = Some (received chan k)"
    using Suc.hyps(1) [OF d le] .
  show ?case
  proof (cases "chan i")
    case None
    then have "received chan (Suc i) = received chan i" by (simp add: received_Suc)
    with IH None run show ?thesis by (subst recv_loop.simps) simp
  next
    case (Some chunk)
    then have r: "received chan i @ chunk = received chan (Suc i)" by (simp add: received_Suc)
    from quiet have "\<not> prompt_search (strip_ansi_codes (received chan (Suc i)))" by simp
    with IH Some run r show ?thesis by (subst recv_loop.simps) (simp add: Let_def)
  qed
qed

text \<open>
  Claim C4. On a connected shell, with a clock that advances from one poll to the next,
  when the normalized accumulated text never matches the prompt pattern, the read returns:
  it stops at the first poll at which the maximum wait has elapsed and its result is the
  text accumulated in the polls before, as a value and not as a failure.
\<close>

theorem send_command_read_deadline:
  assumes "\<forall>i. now i < now (Suc i)"
    and "\<forall>k. \<not> prompt_search (strip_ansi_codes (received chan k))"
  shows "\<exists>k. send_command_read True True now chan = Some (Inr (received chan k))
             \<and> max_wait \<le> now k \<and> (\<forall>j < k. now j < max_wait)"
proof -
  define k where "k = (LEAST k. max_wait \<le> now k)"
  have ex: "max_wait \<le> now max_wait" using assms(1) by (rule clock_grows)
  then have at: "max_wait \<le> now k" unfolding k_def by (rule LeastI)
  have before: "\<forall>j < k. now j < max_wait"
  proof (intro allI impI)
    fix j assume "j < k"
    then have "\<not> max_wait \<le> now j" unfolding k_def by (rule not_less_Least)
    then show "now j < max_wait" by simp
  qed
  have "recv_loop now chan 0 (received chan 0) = Some (received chan k)"
    using assms(2) before at by (rule recv_loop_run) simp
  then have "send_command_read True True now chan = Some (Inr (received chan k))"
    by (simp add: send_command_read_def received_def)
  with at before show ?thesis by blast
qed

lemma received_stalled:
  "received stalled_chan k = (if k = 0 then [] else ''show version'' @ [NL] @ ''Hostname'')"
proof (induction k)
  case 0
  then show ?case by (simp add: received_def)
next
  case (Suc k)
  then show ?case by (simp add: received_Suc stalled_chan_def)
qed

theorem send_command_read_deadline_witness:
  "send_command_read True True slow_clock stalled_chan
     = Some (Inr (''show version'' @ [NL] @ ''Hostname''))"
proof -
  have h1: "\<forall>i. slow_clock i < slow_clock (Suc i)" by (simp add: slow_clock_def)
  have p0: "\<not> prompt_search (strip_ansi_codes [])" by code_simp
  have p1: "\<not> prompt_search (strip_ansi_codes (''show version'' @ [NL] @ ''Hostname''))"
    by code_simp
  have h2: "\<forall>k. \<not> prompt_search (strip_ansi_codes (received stalled_chan k))"
    using p0 p1 by (simp add: received_stalled)
  from send_command_read_deadline [OF h1 h2]
  obtain k where r: "send_command_read True True slow_clock stalled_chan
                       = Some (Inr (received stalled_chan k))"
    and d: "max_wait \<le> slow_clock k"
    by blast
  from d have "k \<noteq> 0" by (auto simp: slow_clock_def max_wait_def)
  with r show ?thesis by (simp add: received_stalled)
qed

section \<open>Properties of the drift comparator\<close>

lemma startswith_nonempty: "startswith s (c # p) \<Longrightarrow> s \<noteq> []"
  by (auto simp: startswith_def)

lemma statement_set_canonical: "statement_set ls = canonical ls"
  by (auto simp: statement_set_def canonical_def dest: startswith_nonempty)

lemma finite_statement_set: "finite (statement_set ls)"
  by (simp add: statement_set_def)

lemma join_nl_Nil_iff: "join_nl ls = [] \<longleftrightarrow> ls = [] \<or> ls = [[]]"
  by (induction ls rule: join_nl.induct) simp_all

text \<open>
  Claim C2. For every intended statement sequence and observed text, \<open>compare\<close> takes both
  sides to the sets of their trimmed lines that begin with \<open>set \<close>; \<open>missing\<close> lists
  the intended set minus the observed set and \<open>extra\<close> the observed set minus the intended
  set, each sorted and without repetition. When the two sets are equal there is no drift
  and the diff text is empty; when they are disjoint and not empty, \<open>missing\<close> is the
  intended set and \<open>extra\<close> the observed set.
\<close>

theorem compare_sets:
  "set (missing (compare intended observed)) = canonical intended - canonical (split_nl observed)
   \<and> set (extra (compare intended observed)) = canonical (split_nl observed) - canonical intended
   \<and> sorted (missing (compare intended observed)) \<and> distinct (missing (compare intended observed))
   \<and> sorted (extra (compare intended observed)) \<and> distinct (extra (compare intended observed))
   \<and> (canonical intended = canonical (split_nl observed) \<longrightarrow>
        \<not> has_drift (compare intended observed) \<and> diff_text (compare intended observed) = [])
   \<and> (canonical intended \<inter> canonical (split_nl observed) = {}
        \<and> canonical intended \<noteq> {} \<and> canonical (split_nl observed) \<noteq> {} \<longrightarrow>
        set (missing (compare intended observed)) = canonical intended
        \<and> set (extra (compare intended observed)) = canonical (split_nl observed))"
proof -
  have fin: "finite (canonical intended - canonical (split_nl observed))"
       "finite (canonical (split_nl observed) - canonical intended)"
    using finite_statement_set by (simp_all flip: statement_set_canonical)
  have m: "missing (compare intended observed)
           = sorted_list_of_set (canonical intended - canonical (split_nl observed))"
    by (simp add: compare_def Let_def statement_set_canonical)
  have e: "extra (compare intended observed)
           = sorted_list_of_set (canonical (split_nl observed) - canonical intended)"
    by (simp add: compare_def Let_def statement_set_canonical)
  have eq: "canonical intended = canonical (split_nl observed) \<Longrightarrow>
        \<not> has_drift (compare intended observed) \<and> diff_text (compare intended observed) = []"
    by (simp add: compare_def Let_def statement_set_canonical)
  show ?thesis using fin eq by (auto simp: m e)
qed

theorem compare_sets_witness:
  "(canonical [''set / a b'', '' set / c d ''] = canonical (split_nl (''set / c d'' @ [NL] @ ''set / a b''))
    \<and> \<not> has_drift (compare [''set / a b'', '' set / c d ''] (''set / c d'' @ [NL] @ ''set / a b''))
    \<and> diff_text (compare [''set / a b'', '' set / c d ''] (''set / c d'' @ [NL] @ ''set / a b'')) = [])
   \<and> (canonical [''set / a b''] \<inter> canonical (split_nl ''set / c d'') = {}
    \<and> canonical [''set / a b''] \<noteq> {} \<and> canonical (split_nl ''set / c d'') \<noteq> {}
    \<and> set (missing (compare [''set / a b''] ''set / c d'')) = canonical [''set / a b'']
    \<and> set (extra (compare [''set / a b''] ''set / c d'')) = canonical (split_nl ''set / c d''))"
proof -
  have c1: "canonical [''set / a b'', '' set / c d ''] = {''set / a b'', ''set / c d''}"
    by (simp add: statement_set_def strip_def isspace_def code_def startswith_def
        flip: statement_set_canonical)
  have c2: "canonical (split_nl (''set / c d'' @ [NL] @ ''set / a b'')) = {''set / a b'', ''set / c d''}"
    by (simp add: statement_set_def strip_def isspace_def code_def startswith_def NL_def
        insert_commute flip: statement_set_canonical)
  have c3: "canonical [''set / a b''] = {''set / a b''}"
    by (simp add: statement_set_def strip_def isspace_def code_def startswith_def
        flip: statement_set_canonical)
  have c4: "canonical (split_nl ''set / c d'') = {''set / c d''}"
    by (simp add: statement_set_def strip_def isspace_def code_def startswith_def NL_def
        flip: statement_set_canonical)
  have h1: "canonical [''set / a b'', '' set / c d '']
            = canonical (split_nl (''set / c d'' @ [NL] @ ''set / a b''))"
    unfolding c1 c2 by (rule refl)
  have h2: "canonical [''set / a b''] \<inter> canonical (split_nl ''set / c d'') = {}
            \<and> canonical [''set / a b''] \<noteq> {} \<and> canonical (split_nl ''set / c d'') \<noteq> {}"
    unfolding c3 c4 by simp
  note tail = conjunct2 [THEN conjunct2, THEN conjunct2, THEN conjunct2, THEN conjunct2,
      THEN conjunct2]
  note r1 = compare_sets [of "[''set / a b'', '' set / c d '']"
      "''set / c d'' @ [NL] @ ''set / a b''", THEN tail, THEN conjunct1, THEN mp, OF h1]
  note r2 = compare_sets [of "[''set / a b'']" "''set / c d''", THEN tail, THEN conjunct2,
      THEN mp, OF h2]
  show ?thesis
    by (intro conjI h1 r1 [THEN conjunct1] r1 [THEN conjunct2]
        h2 [THEN conjunct1] h2 [THEN conjunct2, THEN conjunct1] h2 [THEN conjunct2, THEN conjunct2]
        r2 [THEN conjunct1] r2 [THEN conjunct2])
qed

text \<open>
  Claim C6. The diff text of \<open>compare\<close> is the missing lines, each behind \<open>+\<close> and a
  space, followed by the extra lines, each behind \<open>-\<close> and a space, joined by newlines;
  both groups are sorted. With the one intended statement
  \<open>set / interface ethernet-1/1 admin-state enable\<close> and an empty observed output the
  diff text is that statement behind \<open>+ \<close>.
\<close>

theorem compare_diff_text:
  "diff_text (compare intended observed)
     = join_nl (map (\<lambda>line. ''+ '' @ line) (missing (compare intended observed))
                @ map (\<lambda>line. ''- '' @ line) (extra (compare intended observed)))
   \<and> sorted (missing (compare intended observed))
   \<and> sorted (extra (compare intended observed))
   \<and> compare [''set / interface ethernet-1/1 admin-state enable''] []
       = \<lparr>has_drift = True,
          diff_text = ''+ set / interface ethernet-1/1 admin-state enable'',
          missing = [''set / interface ethernet-1/1 admin-state enable''],
          extra = []\<rparr>"
proof -
  have s1: "statement_set [''set / interface ethernet-1/1 admin-state enable'']
            = {''set / interface ethernet-1/1 admin-state enable''}"
    by (simp add: statement_set_def strip_def isspace_def code_def startswith_def)
  have s2: "statement_set (split_nl []) = {}"
    by (simp add: statement_set_def strip_def startswith_def)
  have ex: "compare [''set / interface ethernet-1/1 admin-state enable''] []
       = \<lparr>has_drift = True,
          diff_text = ''+ set / interface ethernet-1/1 admin-state enable'',
          missing = [''set / interface ethernet-1/1 admin-state enable''],
          extra = []\<rparr>"
    unfolding compare_def Let_def s1 s2 by simp
  have "sorted (missing (compare intended observed))" "sorted (extra (compare intended observed))"
    by (simp_all add: compare_def Let_def)
  moreover have "diff_text (compare intended observed)
     = join_nl (map (\<lambda>line. ''+ '' @ line) (missing (compare intended observed))
                @ map (\<lambda>line. ''- '' @ line) (extra (compare intended observed)))"
    by (simp add: compare_def Let_def)
  ultimately show ?thesis using ex by simp
qed

theorem compare_diff_text_witness:
  "diff_text (compare [''set / b'', ''set / a''] (''set / z'' @ [NL] @ ''set / y''))
     = join_nl [''+ set / a'', ''+ set / b'', ''- set / y'', ''- set / z'']"
proof -
  have m: "missing (compare [''set / b'', ''set / a''] (''set / z'' @ [NL] @ ''set / y'')) = [''set / a'', ''set / b'']"
    by code_simp
  have e: "extra (compare [''set / b'', ''set / a''] (''set / z'' @ [NL] @ ''set / y'')) = [''set / y'', ''set / z'']"
    by code_simp
  from compare_diff_text [of "[''set / b'', ''set / a'']" "''set / z'' @ [NL] @ ''set / y''"]
  have "diff_text (compare [''set / b'', ''set / a''] (''set / z'' @ [NL] @ ''set / y''))
     = join_nl (map (\<lambda>line. ''+ '' @ line) (missing (compare [''set / b'', ''set / a''] (''set / z'' @ [NL] @ ''set / y'')))
                @ map (\<lambda>line. ''- '' @ line) (extra (compare [''set / b'', ''set / a''] (''set / z'' @ [NL] @ ''set / y''))))"
    by (rule conjunct1)
  then show ?thesis unfolding m e by simp
qed

text \<open>
  Claim C9. The compare module asks the connection for \<open>send_command\<close>, which an
  \<open>SRLinuxConnection\<close> does not have; so every invocation ends in a failure and none
  returns a drift report, and every invocation that reaches the retrieval of the running
  configuration fails in the exception handler with the text of the attribute error.
\<close>

theorem compare_module_always_fails:
  "''send_command'' \<notin> set SRLinuxConnection_attributes
   \<and> isl (main has_paramiko files call p)
   \<and> (has_paramiko \<and> load_intended files p = Inr intended \<longrightarrow>
        main has_paramiko files call p
        = Inl (FailJson (''Configuration comparison failed: ''
             @ quoted ''SRLinuxConnection'' @ '' object has no attribute '' @ quoted ''send_command'')))"
proof -
  have a: "''send_command'' \<notin> set SRLinuxConnection_attributes"
    by (simp add: SRLinuxConnection_attributes_def)
  then have g: "getattr_connection ''send_command''
      = Inl (quoted ''SRLinuxConnection'' @ '' object has no attribute '' @ quoted ''send_command'')"
    by (simp add: getattr_connection_def)
  show ?thesis using a by (simp add: main_def g split: sum.splits)
qed

theorem compare_module_always_fails_witness:
  "load_intended (\<lambda>f. None) sample_params = Inr [''set / system name host-name leaf1'']
   \<and> main True (\<lambda>f. None) (\<lambda>name arg. ''set / system name host-name leaf1'') sample_params
       = Inl (FailJson (''Configuration comparison failed: ''
            @ quoted ''SRLinuxConnection'' @ '' object has no attribute ''
            @ quoted ''send_command''))"
proof -
  have l: "load_intended (\<lambda>f. None) sample_params = Inr [''set / system name host-name leaf1'']"
    by (simp add: load_intended_def sample_params_def)
  have h: "True \<and> load_intended (\<lambda>f. None) sample_params
             = Inr [''set / system name host-name leaf1'']"
    using l by simp
  note t = compare_module_always_fails [of True "\<lambda>f. None"
      "\<lambda>name arg. ''set / system name host-name leaf1''" sample_params
      "[''set / system name host-name leaf1'']",
      THEN conjunct2, THEN conjunct2, THEN mp, OF h]
  from l t show ?thesis by (intro conjI)
qed

section \<open>Properties of the session and of the transaction manager\<close>

lemma split_nl_nonempty: "split_nl s \<noteq> []"
  by (induction s) (simp_all add: Let_def)

lemma split_nl_line: "NL \<notin> set l \<Longrightarrow> split_nl (l @ NL # rest) = l # split_nl rest"
  by (induction l) (auto simp: Let_def)

lemma split_nl_single: "NL \<notin> set l \<Longrightarrow> split_nl l = [l]"
  by (induction l) (auto simp: Let_def)

lemma split_join_nl:
  "ls \<noteq> [] \<Longrightarrow> \<forall>l \<in> set ls. NL \<notin> set l \<Longrightarrow> split_nl (join_nl ls) = ls"
proof (induction ls rule: join_nl.induct)
  case 1
  then show ?case by simp
next
  case (2 l)
  then show ?case by (simp add: split_nl_single)
next
  case (3 l v va)
  then show ?case by (simp add: split_nl_line)
qed

lemma connect_ok:
  assumes "connected s \<longrightarrow> shell s" "connected s \<or> connect_error env = None"
  shows "connect env s = (Inr True, s\<lparr>shell := True, connected := True\<rparr>)"
  using assms by (cases s) (auto simp: connect_def)

lemma send_command_ok:
  "shell s \<Longrightarrow> send_command env s c = (Inr (reply env (sent s @ [c])), s\<lparr>sent := sent s @ [c]\<rparr>)"
  by (simp add: send_command_def Let_def)

lemma exit_candidate_mode_ok:
  "shell s \<Longrightarrow> exit_candidate_mode env s = (Inr True, s\<lparr>sent := sent s @ [''quit'']\<rparr>)"
  by (simp add: exit_candidate_mode_def send_command_ok)

lemma enter_candidate_mode_ok:
  assumes "shell s" "connected s"
    and "contains ''candidate'' (lower (reply env (sent s @ [''enter candidate''])))"
  shows "enter_candidate_mode env s = (Inr True, s\<lparr>sent := sent s @ [''enter candidate'']\<rparr>)"
  using assms by (simp add: enter_candidate_mode_def connect_def send_command_ok)

lemma send_lines_accepted:
  assumes "shell s"
    and "\<forall>k < length (statements lines).
           \<not> rejected (reply env (sent s @ take (Suc k) (statements lines)))"
  shows "send_lines env s cmds lines
         = (Inr (cmds @ statements lines), s\<lparr>sent := sent s @ statements lines\<rparr>)"
  using assms
proof (induction lines arbitrary: s cmds)
  case Nil
  then show ?case by (simp add: statements_def)
next
  case (Cons line rest)
  show ?case
  proof (cases "strip line = []")
    case True
    then have st: "statements (line # rest) = statements rest" by (simp add: statements_def)
    from Cons.IH [OF Cons.prems(1)] Cons.prems(2) True show ?thesis
      by (simp add: st)
  next
    case False
    then have st: "statements (line # rest) = line # statements rest"
      by (simp add: statements_def)
    let ?s1 = "s\<lparr>sent := sent s @ [line]\<rparr>"
    from Cons.prems(2) have ok: "\<not> rejected (reply env (sent s @ [line]))"
      by (auto simp: st)
    have sh: "shell ?s1" using Cons.prems(1) by simp
    have later: "\<forall>k < length (statements rest).
           \<not> rejected (reply env (sent ?s1 @ take (Suc k) (statements rest)))"
    proof (intro allI impI)
      fix k assume "k < length (statements rest)"
      then have "Suc k < length (statements (line # rest))" by (simp add: st)
      with Cons.prems(2) have "\<not> rejected (reply env (sent s @ take (Suc (Suc k)) (statements (line # rest))))"
        by blast
      then show "\<not> rejected (reply env (sent ?s1 @ take (Suc k) (statements rest)))"
        by (simp add: st)
    qed
    have "send_lines env ?s1 (cmds @ [line]) rest
          = (Inr ((cmds @ [line]) @ statements rest), ?s1\<lparr>sent := sent ?s1 @ statements rest\<rparr>)"
      by (rule Cons.IH [OF sh later])
    with False ok Cons.prems(1) show ?thesis
      by (simp add: st send_command_ok rejected_def)
  qed
qed

lemma send_lines_rejected:
  assumes "shell s"
    and "k < length (statements lines)"
    and "\<forall>j < k. \<not> rejected (reply env (sent s @ take (Suc j) (statements lines)))"
    and "rejected (reply env (sent s @ take (Suc k) (statements lines)))"
  shows "send_lines env s cmds lines
         = (Inl (FailJson (''Configuration error: ''
                  @ reply env (sent s @ take (Suc k) (statements lines)))),
            s\<lparr>sent := sent s @ take (Suc k) (statements lines) @ [''quit'']\<rparr>)"
  using assms
proof (induction lines arbitrary: s cmds k)
  case Nil
  then show ?case by (simp add: statements_def)
next
  case (Cons line rest)
  show ?case
  proof (cases "strip line = []")
    case True
    then have st: "statements (line # rest) = statements rest" by (simp add: statements_def)
    from Cons.IH [of s k cmds] Cons.prems True show ?thesis
      by (simp add: st)
  next
    case False
    then have st: "statements (line # rest) = line # statements rest"
      by (simp add: statements_def)
    let ?s1 = "s\<lparr>sent := sent s @ [line]\<rparr>"
    have sh: "shell ?s1" using Cons.prems(1) by simp
    show ?thesis
    proof (cases k)
      case 0
      with Cons.prems(4) have "rejected (reply env (sent s @ [line]))" by (simp add: st)
      with False 0 Cons.prems(1) sh show ?thesis
        by (simp add: st send_command_ok rejected_def exit_candidate_mode_ok)
    next
      case (Suc k')
      from Cons.prems(3) Suc have ok: "\<not> rejected (reply env (sent s @ [line]))"
        by (auto simp: st)
      have len: "k' < length (statements rest)" using Cons.prems(2) Suc by (simp add: st)
      have earlier: "\<forall>j < k'. \<not> rejected (reply env (sent ?s1 @ take (Suc j) (statements rest)))"
      proof (intro allI impI)
        fix j assume "j < k'"
        then have "Suc j < k" using Suc by simp
        with Cons.prems(3) have "\<not> rejected (reply env (sent s @ take (Suc (Suc j)) (statements (line # rest))))"
          by blast
        then show "\<not> rejected (reply env (sent ?s1 @ take (Suc j) (statements rest)))"
          by (simp add: st)
      qed
      have rej: "rejected (reply env (sent ?s1 @ take (Suc k') (statements rest)))"
        using Cons.prems(4) Suc by (simp add: st)
      have "send_lines env ?s1 (cmds @ [line]) rest
         = (Inl (FailJson (''Configuration error: ''
                  @ reply env (sent ?s1 @ take (Suc k') (statements rest)))),
            ?s1\<lparr>sent := sent ?s1 @ take (Suc k') (statements rest) @ [''quit'']\<rparr>)"
        by (rule Cons.IH [OF sh len earlier rej])
      with False ok Cons.prems(1) Suc show ?thesis
        by (simp add: st send_command_ok rejected_def)
    qed
  qed
qed

lemma send_config_rejected:
  assumes "connected s \<longrightarrow> shell s" "connected s \<or> connect_error env = None"
    and "contains ''candidate'' (lower (reply env (sent s @ [''enter candidate''])))"
    and "k < length (statements lines)"
    and "\<forall>j < k. \<not> rejected (reply env (sent s @ ''enter candidate'' # take (Suc j) (statements lines)))"
    and "rejected (reply env (sent s @ ''enter candidate'' # take (Suc k) (statements lines)))"
  shows "send_config env s lines commit
         = (Inl (FailJson (''Configuration error: ''
                @ reply env (sent s @ ''enter candidate'' # take (Suc k) (statements lines)))),
            s\<lparr>shell := True, connected := True,
              sent := sent s @ ''enter candidate'' # take (Suc k) (statements lines) @ [''quit'']\<rparr>)"
proof -
  let ?s0 = "s\<lparr>shell := True, connected := True\<rparr>"
  let ?s1 = "s\<lparr>shell := True, connected := True, sent := sent s @ [''enter candidate'']\<rparr>"
  from assms(4) have ne: "lines \<noteq> []" by (auto simp: statements_def)
  have c: "connect env s = (Inr True, ?s0)" using assms(1,2) by (rule connect_ok)
  have e: "enter_candidate_mode env ?s0 = (Inr True, ?s1)"
    using enter_candidate_mode_ok [of ?s0 env] assms(3) by simp
  have l: "send_lines env ?s1 [] lines
         = (Inl (FailJson (''Configuration error: ''
                  @ reply env (sent s @ ''enter candidate'' # take (Suc k) (statements lines)))),
            s\<lparr>shell := True, connected := True,
              sent := sent s @ ''enter candidate'' # take (Suc k) (statements lines) @ [''quit'']\<rparr>)"
    using send_lines_rejected [of ?s1 k lines env "[]"] assms(4,5,6) by simp
  show ?thesis using ne by (simp add: send_config_def c e l)
qed

text \<open>
  Claim C10. \<open>send_config\<close> with an empty statement list sends nothing: the record of
  the transport is what it was (no candidate entry, statement, diff, commit or discard),
  and once the connection stands the call returns the result with \<open>changed\<close> false, no
  commands and an empty diff.
\<close>

theorem send_config_empty:
  "sent (snd (send_config env s [] commit)) = sent s
   \<and> (connected s \<or> connect_error env = None \<longrightarrow>
        fst (send_config env s [] commit) = Inr \<lparr>changed = False, commands = [], diff = []\<rparr>)"
  by (auto simp: send_config_def connect_def split: option.splits)

theorem send_config_empty_witness:
  "connect_error quiet_env = None
   \<and> send_config quiet_env fresh [] True
      = (Inr \<lparr>changed = False, commands = [], diff = []\<rparr>,
         \<lparr>shell = True, connected = True, sent = []\<rparr>)"
  using send_config_empty [of quiet_env fresh True]
  by (simp add: quiet_env_def fresh_def send_config_def connect_def)

text \<open>
  Claim C1. When the response to a statement holds an error or invalid marker, the
  statements behind it are not sent and the failure is reported; the claim also has the
  transport record one \<open>discard now\<close> and one \<open>quit\<close> behind the rejected statement. On
  the device that answers \<open>Error: invalid option\<close> to the first of two statements,
  \<open>send_config\<close> fails with that text, the second statement is never sent, and the record
  behind the rejected statement is one \<open>quit\<close> and no \<open>discard now\<close>.
\<close>

theorem send_config_rejected_no_discard:
  "send_config rejecting_env fresh bogus_lines True
     = (Inl (FailJson ''Configuration error: Error: invalid option''),
        \<lparr>shell = True, connected = True,
         sent = [''enter candidate'', ''set / interface ethernet-1/1 bogus-opt enable'', ''quit'']\<rparr>)
   \<and> count_list (sent (snd (send_config rejecting_env fresh bogus_lines True))) ''discard now'' = 0
   \<and> count_list (sent (snd (send_config rejecting_env fresh bogus_lines True))) ''quit'' = 1"
  by code_simp

text \<open>
  Claim C5. When the output of \<open>diff\<close> is the line \<open>diff\<close> and a bracketed prompt line, the
  cleaned diff is the empty string, \<open>send_config\<close> reports no change, and behind \<open>diff\<close>
  it sends \<open>discard now\<close> and \<open>quit\<close> and nothing else, so no \<open>commit now\<close>.
\<close>

theorem send_config_no_change:
  assumes "lines \<noteq> []"
    and "connected s \<longrightarrow> shell s" and "connected s \<or> connect_error env = None"
    and "contains ''candidate'' (lower (reply env (sent s @ [''enter candidate''])))"
    and "\<forall>k < length (statements lines).
           \<not> rejected (reply env (sent s @ ''enter candidate'' # take (Suc k) (statements lines)))"
    and "split_nl (strip_ansi_codes
           (reply env (sent s @ ''enter candidate'' # statements lines @ [''diff''])))
         = [d, p]"
    and "strip d = ''diff''" and "prompt_banner p"
  shows "clean_diff_output (reply env (sent s @ ''enter candidate'' # statements lines @ [''diff''])) = []
       \<and> send_config env s lines commit
         = (Inr \<lparr>changed = False, commands = statements lines, diff = []\<rparr>,
            s\<lparr>shell := True, connected := True,
              sent := sent s @ ''enter candidate'' # statements lines
                      @ [''diff'', ''discard now'', ''quit'']\<rparr>)"
proof -
  let ?s0 = "s\<lparr>shell := True, connected := True\<rparr>"
  let ?s1 = "s\<lparr>shell := True, connected := True, sent := sent s @ [''enter candidate'']\<rparr>"
  let ?s2 = "s\<lparr>shell := True, connected := True,
                 sent := sent s @ ''enter candidate'' # statements lines\<rparr>"
  let ?out = "reply env (sent s @ ''enter candidate'' # statements lines @ [''diff''])"
  have c: "connect env s = (Inr True, ?s0)" using assms(2,3) by (rule connect_ok)
  have e: "enter_candidate_mode env ?s0 = (Inr True, ?s1)"
    using enter_candidate_mode_ok [of ?s0 env] assms(4) by simp
  have l: "send_lines env ?s1 [] lines = (Inr (statements lines), ?s2)"
    using send_lines_accepted [of ?s1 lines env "[]"] assms(5) by simp
  have r: "diff_residue ?out = []"
    using assms(6,7,8) by (simp add: diff_residue_def Let_def strip_def)
  then have d: "clean_diff_output ?out = []"
    by (simp add: clean_diff_output_def)
  have h: "\<not> has_changes []" by (simp add: has_changes_def)
  have "send_config env s lines commit
         = (Inr \<lparr>changed = False, commands = statements lines, diff = []\<rparr>,
            s\<lparr>shell := True, connected := True,
              sent := sent s @ ''enter candidate'' # statements lines
                      @ [''diff'', ''discard now'', ''quit'']\<rparr>)"
    using assms(1)
    by (simp add: send_config_def c e l send_command_ok d h exit_and_return_def
        exit_candidate_mode_ok)
  with d show ?thesis by simp
qed

theorem send_config_no_change_witness:
  "send_config unchanged_env fresh one_line True
     = (Inr \<lparr>changed = False, commands = one_line, diff = []\<rparr>,
        \<lparr>shell = True, connected = True,
         sent = [''enter candidate'', ''set / interface ethernet-1/1 admin-state enable'',
                 ''diff'', ''discard now'', ''quit'']\<rparr>)"
proof -
  have st: "statements one_line = one_line" by code_simp
  have h1: "one_line \<noteq> []" by (simp add: one_line_def)
  have h2: "connected fresh \<longrightarrow> shell fresh" by (simp add: fresh_def)
  have h3: "connected fresh \<or> connect_error unchanged_env = None" by (simp add: unchanged_env_def)
  have h4: "contains ''candidate'' (lower (reply unchanged_env (sent fresh @ [''enter candidate''])))"
    by code_simp
  have r0: "\<not> rejected (reply unchanged_env (sent fresh @ ''enter candidate'' # one_line))"
    by code_simp
  have h5: "\<forall>k < length (statements one_line).
           \<not> rejected (reply unchanged_env (sent fresh @ ''enter candidate'' # take (Suc k) (statements one_line)))"
    unfolding st using r0 by (simp add: one_line_def)
  have h6: "split_nl (strip_ansi_codes
           (reply unchanged_env (sent fresh @ ''enter candidate'' # statements one_line @ [''diff''])))
         = [''diff'', banner_text]"
    by code_simp
  have h7: "strip ''diff'' = ''diff''" by code_simp
  have h8: "prompt_banner banner_text" by code_simp
  show ?thesis
    using send_config_no_change [OF h1 h2 h3 h4 h5 h6 h7 h8, of True, THEN conjunct2]
    unfolding st by (simp add: fresh_def one_line_def)
qed




text \<open>
  On an output that stops before a prompt (what a read returns after its deadline) the
  slice \<open>lines[1:-1]\<close> takes the last body line away as well.
\<close>

lemma execute_command_partial_output:
  "execute_command partial_env fresh ''show version''
     = (Inr ''line1'', \<lparr>shell = True, connected = True, sent = [''show version'']\<rparr>)"
  by code_simp

text \<open>
  Claim C8, as stated: \<open>execute_command\<close> removes the first line and a trailing banner
  line and keeps every other line as it is. On a complete output (echo, an indented body
  line, the banner, the prompt line) the result is the body line without its indentation:
  the prompt line behind the banner is removed too, the banner is removed though it is not
  the last line, and the whitespace around the result is trimmed.
\<close>

theorem execute_command_prompt_counterexample:
  "execute_command indented_env fresh ''show version''
     = (Inr ''Hostname : srl1'', \<lparr>shell = True, connected = True, sent = [''show version'']\<rparr>)
   \<and> spec_command_body (reply indented_env [''show version''])
       = ''  Hostname : srl1'' @ [NL] @ ''--{ running }--[  ]--'' @ [NL] @ ''A:srl1# ''
   \<and> fst (execute_command indented_env fresh ''show version'')
       \<noteq> Inr (spec_command_body (reply indented_env [''show version'']))"
  by code_simp

text \<open>
  Claim C8, amended. For every command and every device output whose normalized text ends
  in a prompt line (a last line that ends in \<open>#\<close> or \<open>>\<close>, up to whitespace),
  \<open>execute_command\<close> returns that text without its first line (the echo), without that
  last line and without the lines that start with the bracketed-status form; the other
  lines are joined in their order by newlines and the whitespace around the result is
  trimmed. Nothing is said of an output whose last line is not a prompt line.
\<close>

theorem execute_command_body:
  assumes "connected s \<longrightarrow> shell s" and "connected s \<or> connect_error env = None"
    and "strip_ansi_codes (reply env (sent s @ [command])) = join_nl (echo # body @ [prompt])"
    and "\<forall>l \<in> set (echo # body @ [prompt]). NL \<notin> set l"
    and "prompt_search prompt"
  shows "execute_command env s command
         = (Inr (strip (join_nl (filter (\<lambda>l. \<not> prompt_banner l) body))),
            s\<lparr>shell := True, connected := True, sent := sent s @ [command]\<rparr>)"
proof -
  let ?s0 = "s\<lparr>shell := True, connected := True\<rparr>"
  have c: "connect env s = (Inr True, ?s0)" using assms(1,2) by (rule connect_ok)
  have "split_nl (join_nl (echo # body @ [prompt])) = echo # body @ [prompt]"
    using assms(4) by (intro split_join_nl) simp_all
  then have b: "command_body (reply env (sent s @ [command]))
                = strip (join_nl (filter (\<lambda>l. \<not> prompt_banner l) body))"
    by (simp add: command_body_def assms(3))
  show ?thesis by (simp add: execute_command_def c send_command_ok b)
qed

theorem execute_command_body_witness:
  "prompt_search ''A:srl1# ''
   \<and> execute_command typical_env fresh ''show version''
     = (Inr ''Hostname : srl1'', \<lparr>shell = True, connected = True, sent = [''show version'']\<rparr>)"
proof -
  have h1: "connected fresh \<longrightarrow> shell fresh" by (simp add: fresh_def)
  have h2: "connected fresh \<or> connect_error typical_env = None" by (simp add: typical_env_def)
  have h3: "strip_ansi_codes (reply typical_env (sent fresh @ [''show version'']))
            = join_nl (''show version'' # [''Hostname : srl1'', banner_text] @ [''A:srl1# ''])"
    by code_simp
  have h4: "\<forall>l \<in> set (''show version'' # [''Hostname : srl1'', banner_text] @ [''A:srl1# '']). NL \<notin> set l"
    by (simp add: NL_def banner_text_def)
  have h5: "prompt_search ''A:srl1# ''" by code_simp
  have b: "strip (join_nl (filter (\<lambda>l. \<not> prompt_banner l) [''Hostname : srl1'', banner_text]))
           = ''Hostname : srl1''"
    by code_simp
  have r: "execute_command typical_env fresh ''show version''
     = (Inr ''Hostname : srl1'', \<lparr>shell = True, connected = True, sent = [''show version'']\<rparr>)"
    using execute_command_body [OF h1 h2 h3 h4 h5] unfolding b by (simp add: fresh_def)
  from h5 r show ?thesis by (intro conjI)
qed

end
